theory Spec2Isabelle
  imports Main "HOL-Library.Char_ord" "HOL-Library.List_Lexorder" "HOL-Library.Multiset"
    "HOL-Library.Word"
begin

section \<open>Strings\<close>

text \<open>
  A Python \<open>str\<close> is modelled as a \<^typ>\<open>string\<close>: a list of characters, each character
  a code point below 256. \<open>str.isspace\<close>, \<open>str.strip\<close> and \<open>str.lower\<close> are given for
  that range; strings compare lexicographically by code point, as in Python.
\<close>

definition isspace :: "char \<Rightarrow> bool" where
  "isspace c = (c \<in> set [CHR 0x09, CHR 0x0A, CHR 0x0B, CHR 0x0C, CHR 0x0D,
                          CHR 0x1C, CHR 0x1D, CHR 0x1E, CHR 0x1F, CHR 0x20,
                          CHR 0x85, CHR 0xA0])"

definition strip :: "string \<Rightarrow> string" where
  "strip s = rev (dropWhile isspace (rev (dropWhile isspace s)))"

definition lower_char :: "char \<Rightarrow> char" where
  "lower_char c =
     (let n = (of_char c :: nat)
      in if (65 \<le> n \<and> n \<le> 90) \<or> (192 \<le> n \<and> n \<le> 222 \<and> n \<noteq> 215)
         then char_of (n + 32) else c)"

definition lower :: "string \<Rightarrow> string" where
  "lower s = map lower_char s"

section \<open>Regular expressions\<close>

text \<open>
  \<open>re.compile(p).fullmatch(s)\<close> succeeds exactly when the whole of \<open>s\<close> is a word of
  the pattern. The patterns are given as a datatype; \<open>fullmatch\<close> decides membership by
  taking the derivative of the pattern at each character of the subject in turn.
\<close>

datatype regex =
    Zero
  | One
  | Chr char
  | NotChr char
  | Alt regex regex
  | Seq regex regex
  | Star regex

definition Plus :: "regex \<Rightarrow> regex" where
  "Plus r = Seq r (Star r)"

fun nullable :: "regex \<Rightarrow> bool" where
  "nullable Zero = False"
| "nullable One = True"
| "nullable (Chr c) = False"
| "nullable (NotChr c) = False"
| "nullable (Alt r s) = (nullable r \<or> nullable s)"
| "nullable (Seq r s) = (nullable r \<and> nullable s)"
| "nullable (Star r) = True"

fun deriv :: "char \<Rightarrow> regex \<Rightarrow> regex" where
  "deriv x Zero = Zero"
| "deriv x One = Zero"
| "deriv x (Chr c) = (if x = c then One else Zero)"
| "deriv x (NotChr c) = (if x = c then Zero else One)"
| "deriv x (Alt r s) = Alt (deriv x r) (deriv x s)"
| "deriv x (Seq r s) =
     (if nullable r then Alt (Seq (deriv x r) s) (deriv x s) else Seq (deriv x r) s)"
| "deriv x (Star r) = Seq (deriv x r) (Star r)"

definition fullmatch :: "regex \<Rightarrow> string \<Rightarrow> bool" where
  "fullmatch r s = nullable (fold deriv s r)"

text \<open>The words of a pattern.\<close>

inductive_set kleene :: "string set \<Rightarrow> string set" for A :: "string set" where
  kleene_nil: "[] \<in> kleene A"
| kleene_app: "u \<in> A \<Longrightarrow> v \<in> kleene A \<Longrightarrow> u @ v \<in> kleene A"

definition conc :: "string set \<Rightarrow> string set \<Rightarrow> string set" where
  "conc A B = {u @ v | u v. u \<in> A \<and> v \<in> B}"

fun lang :: "regex \<Rightarrow> string set" where
  "lang Zero = {}"
| "lang One = {[]}"
| "lang (Chr c) = {[c]}"
| "lang (NotChr c) = {[x] | x. x \<noteq> c}"
| "lang (Alt r s) = lang r \<union> lang s"
| "lang (Seq r s) = conc (lang r) (lang s)"
| "lang (Star r) = kleene (lang r)"

section \<open>Contact\<close>

record contact =
  name :: string
  phone :: string
  email :: string

datatype error =
    ValueError string
  | TypeError string
  | IndexError string

text \<open>\<open>EMAIL_REGEX = re.compile(r"[^@]+@[^@]+\.[^@]+")\<close>\<close>

definition EMAIL_REGEX :: regex where
  "EMAIL_REGEX =
     Seq (Plus (NotChr CHR ''@''))
       (Seq (Chr CHR ''@'')
         (Seq (Plus (NotChr CHR ''@''))
           (Seq (Chr CHR ''.'')
             (Plus (NotChr CHR ''@'')))))"

text \<open>
  \<open>Contact._validate_non_empty(value, field)\<close>; the second argument here is the
  capitalised field name of the message.
\<close>

definition validate_non_empty :: "string \<Rightarrow> string \<Rightarrow> error + string" where
  "validate_non_empty v field =
     (let v' = strip v
      in if v' = [] then Inl (ValueError (field @ '' cannot be empty.'')) else Inr v')"

definition validate_email :: "string \<Rightarrow> error + string" where
  "validate_email e =
     (let e' = strip e
      in if \<not> fullmatch EMAIL_REGEX e' then Inl (ValueError (''Invalid email format: '' @ e'))
         else Inr e')"

text \<open>\<open>Contact.__init__\<close>: the three fields are validated in order; the first failure raises.\<close>

definition contact_init :: "string \<Rightarrow> string \<Rightarrow> string \<Rightarrow> error + contact" where
  "contact_init n p e =
     (case validate_non_empty n ''Name'' of
        Inl err \<Rightarrow> Inl err
      | Inr n' \<Rightarrow>
          (case validate_non_empty p ''Phone'' of
             Inl err \<Rightarrow> Inl err
           | Inr p' \<Rightarrow>
               (case validate_email e of
                  Inl err \<Rightarrow> Inl err
                | Inr e' \<Rightarrow> Inr \<lparr>name = n', phone = p', email = e'\<rparr>)))"

text \<open>\<open>Contact.__eq__\<close>, \<open>Contact.__lt__\<close> and \<open>Contact.to_dict\<close>.\<close>

definition contact_eq :: "contact \<Rightarrow> contact \<Rightarrow> bool" where
  "contact_eq a b = (lower (name a) = lower (name b))"

definition contact_lt :: "contact \<Rightarrow> contact \<Rightarrow> bool" where
  "contact_lt a b = (lower (name a) < lower (name b))"

definition to_dict :: "contact \<Rightarrow> (string \<times> string) list" where
  "to_dict c = [(''name'', name c), (''phone'', phone c), (''email'', email c)]"

section \<open>Python values and exceptions\<close>

text \<open>
  The collection's operators take any object and branch on its type. The objects that
  matter are
  \<^item> a \<open>Contact\<close>;
  \<^item> a sequence that the operation does not change while it reads it: a list, a tuple or
    another collection, given by its items;
  \<^item> a dict, given by its items in order;
  \<^item> \<open>VSelf\<close>, the collection the operator is applied to (or the very list it holds):
    the operation then reads the list it is changing;
  \<^item> \<open>VOther b eq\<close>, any other object: \<open>b\<close> is its truth value and \<open>eq e\<close> tells whether
    it answers true when the contact \<open>e\<close> is compared with it.
\<close>

datatype seqkind = ListK | TupleK | CollectionK

datatype pyval =
    VContact contact
  | VSeq seqkind "pyval list"
  | VDict "(pyval \<times> pyval) list"
  | VSelf
  | VOther bool "contact \<Rightarrow> bool"

text \<open>The truth value of an object, for a collection that holds the list \<open>s\<close>.\<close>

fun truthy :: "contact list \<Rightarrow> pyval \<Rightarrow> bool" where
  "truthy s (VContact c) = True"
| "truthy s (VSeq k items) = (items \<noteq> [])"
| "truthy s (VDict kvs) = (kvs \<noteq> [])"
| "truthy s VSelf = (s \<noteq> [])"
| "truthy s (VOther b eq) = b"

text \<open>
  \<open>element == item\<close> for a stored contact \<open>element\<close>. \<open>Contact.__eq__\<close> compares names
  with a \<open>Contact\<close> and answers \<open>NotImplemented\<close> to anything else; Python then asks the
  item, and a list, a tuple, a dict or a collection is equal to nothing but itself.
\<close>

fun py_eq :: "contact \<Rightarrow> pyval \<Rightarrow> bool" where
  "py_eq e (VContact c) = contact_eq e c"
| "py_eq e (VSeq k items) = False"
| "py_eq e (VDict kvs) = False"
| "py_eq e VSelf = False"
| "py_eq e (VOther b eq) = eq e"

text \<open>
  A call that mutates a state and may raise returns the state it leaves behind together
  with the exception, if one was raised.
\<close>

type_synonym 's raising = "'s \<times> error option"

text \<open>A \<open>for\<close> loop whose body mutates the state: the first exception ends the loop.\<close>

fun for_each :: "('a \<Rightarrow> 's \<Rightarrow> 's raising) \<Rightarrow> 'a list \<Rightarrow> 's \<Rightarrow> 's raising" where
  "for_each body [] s = (s, None)"
| "for_each body (x # xs) s =
     (case body x s of
        (s', Some e) \<Rightarrow> (s', Some e)
      | (s', None) \<Rightarrow> for_each body xs s')"

section \<open>ContactsCollection\<close>

type_synonym store = "contact list"

text \<open>\<open>contact in self._contacts\<close>: some element compares equal.\<close>

definition contains :: "contact \<Rightarrow> store \<Rightarrow> bool" where
  "contains c s = list_ex (\<lambda>e. contact_eq e c) s"

text \<open>\<open>list.remove(x)\<close>: drops the first element equal to \<open>x\<close>; \<open>None\<close> is its ValueError.\<close>

fun list_remove :: "pyval \<Rightarrow> store \<Rightarrow> store option" where
  "list_remove x [] = None"
| "list_remove x (e # es) =
     (if py_eq e x then Some es else map_option ((#) e) (list_remove x es))"

text \<open>\<open>ContactsCollection._add_contact\<close>\<close>

definition coll_add_contact :: "pyval \<Rightarrow> store \<Rightarrow> store raising" where
  "coll_add_contact v s =
     (case v of
        VContact c \<Rightarrow> (if \<not> contains c s then s @ [c] else s, None)
      | _ \<Rightarrow> (s, Some (TypeError ''Only Contact instances are allowed.'')))"

text \<open>
  \<open>for item in other: self._add_contact(item)\<close> when \<open>other\<close> is the collection itself.
  The list iterator holds an index into the list the body changes: it yields the item
  at index \<open>i\<close> of the list as it is then, and ends once \<open>i\<close> reaches its length.
\<close>

function extend_self :: "nat \<Rightarrow> store \<Rightarrow> store raising" where
  "extend_self i s =
     (if i < length s
      then (case coll_add_contact (VContact (s ! i)) s of
              (s', Some e) \<Rightarrow> (s', Some e)
            | (s', None) \<Rightarrow> extend_self (Suc i) s')
      else (s, None))"
  by pat_completeness auto
termination
proof (relation "measure (\<lambda>(i, s). length s - i)")
  show "wf (measure (\<lambda>(i, s). length s - i))" by simp
next
  fix i :: nat and s x :: store and y :: "error option"
  assume "i < length s" and "(x, y) = coll_add_contact (VContact (s ! i)) s"
    and "y = None"
  moreover from \<open>i < length s\<close> have "s ! i \<in> set s" by simp
  then have "contains (s ! i) s"
    unfolding contains_def list_ex_iff contact_eq_def by blast
  ultimately show "((Suc i, x), (i, s)) \<in> measure (\<lambda>(i, s). length s - i)"
    by (auto simp: coll_add_contact_def)
qed

declare extend_self.simps [simp del]

text \<open>\<open>ContactsCollection._extend\<close>, which is \<open>+=\<close>\<close>

definition coll_extend :: "pyval \<Rightarrow> store \<Rightarrow> store raising" where
  "coll_extend other s =
     (case other of
        VContact c \<Rightarrow> coll_add_contact other s
      | VSeq k items \<Rightarrow> for_each coll_add_contact items s
      | VSelf \<Rightarrow> extend_self 0 s
      | VDict kvs \<Rightarrow> for_each coll_add_contact (map snd kvs) s
      | VOther b eq \<Rightarrow> (s, Some (TypeError ''Unsupported type for addition.'')))"

text \<open>\<open>self._contacts.remove(item)\<close>\<close>

definition contacts_remove :: "pyval \<Rightarrow> store \<Rightarrow> store raising" where
  "contacts_remove item s =
     (case list_remove item s of
        None \<Rightarrow> (s, Some (ValueError ''list.remove(x): x not in list''))
      | Some s' \<Rightarrow> (s', None))"

text \<open>
  \<open>for item in other: self._contacts.remove(item)\<close> when \<open>other\<close> is the collection
  itself: the iterator's index moves on by one while each removal shortens the list.
\<close>

function remove_self :: "nat \<Rightarrow> store \<Rightarrow> store raising" where
  "remove_self i s =
     (if i < length s
      then (case contacts_remove (VContact (s ! i)) s of
              (s', Some e) \<Rightarrow> (s', Some e)
            | (s', None) \<Rightarrow> remove_self (Suc i) s')
      else (s, None))"
  by pat_completeness auto
termination
proof (relation "measure (\<lambda>(i, s). length s - i)")
  show "wf (measure (\<lambda>(i, s). length s - i))" by simp
next
  fix i :: nat and s x :: store and y :: "error option"
  assume "i < length s" and "(x, y) = contacts_remove (VContact (s ! i)) s"
    and "y = None"
  moreover have "list_remove v t = Some t' \<Longrightarrow> Suc (length t') = length t" for v t t'
    by (induction t arbitrary: t') (auto split: if_splits)
  ultimately have "Suc (length x) = length s"
    by (auto simp: contacts_remove_def split: option.splits)
  with \<open>i < length s\<close> show "((Suc i, x), (i, s)) \<in> measure (\<lambda>(i, s). length s - i)"
    by simp
qed

declare remove_self.simps [simp del]

text \<open>\<open>ContactsCollection._remove\<close>, which is \<open>-=\<close>\<close>

definition coll_remove :: "pyval \<Rightarrow> store \<Rightarrow> store raising" where
  "coll_remove other s =
     (case other of
        VContact c \<Rightarrow> contacts_remove other s
      | VSeq k items \<Rightarrow> for_each contacts_remove items s
      | VSelf \<Rightarrow> remove_self 0 s
      | VDict kvs \<Rightarrow> for_each contacts_remove (map snd kvs) s
      | VOther b eq \<Rightarrow> (s, Some (TypeError ''Unsupported type for removal.'')))"

text \<open>
  \<open>ContactsCollection.__init__\<close>: an empty list, then \<open>self += data\<close> when \<open>data\<close> is
  truthy.
\<close>

definition coll_init :: "pyval option \<Rightarrow> store raising" where
  "coll_init data =
     (case data of
        None \<Rightarrow> ([], None)
      | Some d \<Rightarrow> (if truthy [] d then coll_extend d [] else ([], None)))"

text \<open>
  \<open>ContactsCollection.__setitem__\<close>: the type check, then \<open>self._contacts[index] = contact\<close>,
  where a negative index counts from the end and an index out of range raises.
\<close>

definition coll_setitem :: "int \<Rightarrow> pyval \<Rightarrow> store \<Rightarrow> store raising" where
  "coll_setitem i v s =
     (case v of
        VContact c \<Rightarrow>
          (let n = int (length s); j = (if i < 0 then n + i else i)
           in if 0 \<le> j \<and> j < n then (s[nat j := c], None)
              else (s, Some (IndexError ''list assignment index out of range'')))
      | _ \<Rightarrow> (s, Some (TypeError ''Only Contact instances can be assigned.'')))"

text \<open>
  \<open>ContactsCollection.sort\<close>: \<open>list.sort\<close> is a stable sort under \<open>Contact.__lt__\<close>, which
  compares the lowercased names.
\<close>

definition coll_sort :: "store \<Rightarrow> store" where
  "coll_sort s = sort_key (\<lambda>c. lower (name c)) s"

definition coll_find_by_name :: "string \<Rightarrow> store \<Rightarrow> contact list" where
  "coll_find_by_name nm s = filter (\<lambda>c. lower (name c) = lower nm) s"

definition coll_to_list :: "store \<Rightarrow> (string \<times> string) list list" where
  "coll_to_list s = map to_dict s"

section \<open>StorageManager\<close>

text \<open>The backing file: its bytes, or \<open>None\<close> when it does not exist.\<close>

type_synonym bytes = "8 word list"

text \<open>\<open>StorageManager.__init__\<close> creates the file, empty, when it is missing.\<close>

definition storage_init :: "bytes option \<Rightarrow> bytes option" where
  "storage_init f = (case f of None \<Rightarrow> Some [] | Some d \<Rightarrow> Some d)"

text \<open>\<open>StorageManager.save\<close> opens with \<open>'wb'\<close>, which truncates, and writes the data.\<close>

definition storage_save :: "bytes \<Rightarrow> bytes option \<Rightarrow> bytes option" where
  "storage_save data f = Some data"

text \<open>\<open>StorageManager.load\<close>: the whole file, or \<open>None\<close> when it is missing.\<close>

definition storage_load :: "bytes option \<Rightarrow> bytes option" where
  "storage_load f = f"

section \<open>ContactManager\<close>

text \<open>The lines the manager prints.\<close>

datatype message =
    MsgStorageInitialized
  | MsgFileNotFound
  | MsgLoaded nat
  | MsgParseFailed
  | MsgAdded contact
  | MsgUpdated contact
  | MsgDeleted nat string
  | MsgNotFound string
  | MsgError error
  | MsgFound nat string
  | MsgItem contact

text \<open>
  The manager's state: its collection, the file behind its storage, the number of calls of
  \<open>StorageManager.save\<close> so far, and the lines printed so far.
\<close>

record manager =
  contacts :: store
  storage :: "bytes option"
  writes :: nat
  out :: "message list"

definition say :: "message list \<Rightarrow> manager \<Rightarrow> manager" where
  "say ms m = m\<lparr>out := out m @ ms\<rparr>"

text \<open>
  \<open>pickle.dumps\<close> and \<open>pickle.loads\<close> are parameters of the manager's operations.
  \<open>dumps\<close> gives the bytes of an object. \<open>loads\<close>, given some bytes, returns an object,
  or raises an exception that is an instance of \<open>Exception\<close> (an \<open>UnpicklingError\<close>, an
  \<open>EOFError\<close>, ...), or raises one that is not: unpickling runs what the pickle says,
  which may be \<open>sys.exit\<close>.
\<close>

datatype base_exception =
    SystemExit int
  | KeyboardInterrupt
  | OtherBaseException string

datatype unpickled =
    Returns pyval
  | RaisesException
  | RaisesBaseException base_exception

type_synonym pickler = "pyval \<Rightarrow> bytes"
type_synonym unpickler = "bytes \<Rightarrow> unpickled"

text \<open>
  A call of the manager's that an exception may leave: the state it leaves behind and
  the exception, which no \<open>except Exception\<close> has caught.
\<close>

type_synonym 's escaping = "'s \<times> base_exception option"

text \<open>
  \<open>ContactManager._load_contacts\<close>. \<open>except Exception\<close> catches what \<open>+=\<close> raises (a
  TypeError) and the instances of \<open>Exception\<close> that \<open>pickle.loads\<close> raises; any other
  exception of \<open>pickle.loads\<close> leaves the method.
\<close>

definition load_contacts :: "unpickler \<Rightarrow> manager \<Rightarrow> manager escaping" where
  "load_contacts loads m =
     (case storage_load (storage m) of
        None \<Rightarrow> (say [MsgFileNotFound] m, None)
      | Some raw \<Rightarrow>
          if raw = [] then (m, None)
          else
            (case loads raw of
               RaisesBaseException x \<Rightarrow> (m, Some x)
             | RaisesException \<Rightarrow> (say [MsgParseFailed] m, None)
             | Returns (VSeq ListK items) \<Rightarrow>
                 (case for_each coll_extend items (contacts m) of
                    (s, Some e) \<Rightarrow> (say [MsgParseFailed] (m\<lparr>contacts := s\<rparr>), None)
                  | (s, None) \<Rightarrow> (say [MsgLoaded (length s)] (m\<lparr>contacts := s\<rparr>), None))
             | Returns _ \<Rightarrow> (m, None)))"

text \<open>
  \<open>ContactManager.__init__\<close>, started on a file system where the backing file is \<open>f\<close>.
  An exception that leaves \<open>_load_contacts\<close> leaves the constructor.
\<close>

definition manager_init :: "unpickler \<Rightarrow> bytes option \<Rightarrow> manager escaping" where
  "manager_init loads f =
     load_contacts loads
       \<lparr>contacts = fst (coll_init None), storage = storage_init f, writes = 0,
        out = [MsgStorageInitialized]\<rparr>"

text \<open>\<open>ContactManager._save_contacts\<close>\<close>

definition save_contacts :: "pickler \<Rightarrow> manager \<Rightarrow> manager" where
  "save_contacts dumps m =
     m\<lparr>storage := storage_save (dumps (VSeq ListK (map VContact (contacts m)))) (storage m),
       writes := writes m + 1\<rparr>"

text \<open>
  \<open>ContactManager.add_contact\<close>. The body raises nothing but a ValueError or a TypeError,
  which \<open>except Exception\<close> catches and prints.
\<close>

definition add_contact :: "pickler \<Rightarrow> string \<Rightarrow> string \<Rightarrow> string \<Rightarrow> manager \<Rightarrow> manager" where
  "add_contact dumps n p e m =
     (case contact_init n p e of
        Inl err \<Rightarrow> say [MsgError err] m
      | Inr c \<Rightarrow>
          (case coll_extend (VContact c) (contacts m) of
             (s, Some err) \<Rightarrow> say [MsgError err] (m\<lparr>contacts := s\<rparr>)
           | (s, None) \<Rightarrow>
               say [MsgAdded c] (save_contacts dumps (m\<lparr>contacts := coll_sort s\<rparr>))))"

text \<open>
  \<open>ContactManager.update_contact\<close>. \<open>phone\<close> and \<open>email\<close> are optional; \<open>None\<close> and the
  empty string both keep the stored value.
\<close>

definition or_keep :: "string option \<Rightarrow> string \<Rightarrow> string" where
  "or_keep given kept = (case given of None \<Rightarrow> kept | Some v \<Rightarrow> if v = [] then kept else strip v)"

definition update_contact ::
  "pickler \<Rightarrow> string \<Rightarrow> string option \<Rightarrow> string option \<Rightarrow> manager \<Rightarrow> manager" where
  "update_contact dumps nm ph em m =
     (case coll_find_by_name nm (contacts m) of
        [] \<Rightarrow> say [MsgNotFound nm] m
      | contact # _ \<Rightarrow>
          (let new_phone = or_keep ph (phone contact);
               new_email = or_keep em (email contact)
           in case contact_init (name contact) new_phone new_email of
                Inl err \<Rightarrow> say [MsgError err] m
              | Inr updated \<Rightarrow>
                  (case coll_remove (VContact contact) (contacts m) of
                     (s1, Some err) \<Rightarrow> say [MsgError err] (m\<lparr>contacts := s1\<rparr>)
                   | (s1, None) \<Rightarrow>
                       (case coll_extend (VContact updated) s1 of
                          (s2, Some err) \<Rightarrow> say [MsgError err] (m\<lparr>contacts := s2\<rparr>)
                        | (s2, None) \<Rightarrow>
                            say [MsgUpdated updated]
                              (save_contacts dumps (m\<lparr>contacts := coll_sort s2\<rparr>))))))"

text \<open>
  \<open>ContactManager.delete_contact\<close> has no \<open>try\<close>: an exception of \<open>-=\<close> would leave it.
\<close>

definition delete_contact :: "pickler \<Rightarrow> string \<Rightarrow> manager \<Rightarrow> manager raising" where
  "delete_contact dumps nm m =
     (case coll_find_by_name nm (contacts m) of
        [] \<Rightarrow> (say [MsgNotFound nm] m, None)
      | c # cs \<Rightarrow>
          (case for_each coll_remove (map VContact (c # cs)) (contacts m) of
             (s, Some err) \<Rightarrow> (m\<lparr>contacts := s\<rparr>, Some err)
           | (s, None) \<Rightarrow>
               (say [MsgDeleted (length (c # cs)) nm]
                  (save_contacts dumps (m\<lparr>contacts := coll_sort s\<rparr>)), None)))"

text \<open>\<open>ContactManager.search_contact\<close>\<close>

definition search_contact :: "string \<Rightarrow> manager \<Rightarrow> manager" where
  "search_contact nm m =
     (case coll_find_by_name nm (contacts m) of
        [] \<Rightarrow> say [MsgNotFound nm] m
      | c # cs \<Rightarrow> say (MsgFound (length (c # cs)) nm # map MsgItem (c # cs)) m)"

section \<open>Properties in the words of the specification\<close>

text \<open>No two stored contacts have the same name, case-insensitively.\<close>

definition no_duplicates :: "store \<Rightarrow> bool" where
  "no_duplicates s = distinct (map (\<lambda>c. lower (name c)) s)"

text \<open>
  The shape of an email address in the words of the specification: one or more
  characters other than \<open>@\<close>, then \<open>@\<close>, then one or more characters other than \<open>@\<close>,
  then a dot, then one or more characters other than \<open>@\<close>, and nothing else.
\<close>

definition no_at :: "string \<Rightarrow> bool" where
  "no_at s = (s \<noteq> [] \<and> CHR ''@'' \<notin> set s)"

definition email_shape :: "string \<Rightarrow> bool" where
  "email_shape s =
     (\<exists>a b c. s = a @ CHR ''@'' # b @ CHR ''.'' # c \<and> no_at a \<and> no_at b \<and> no_at c)"

text \<open>
  A contact as construction leaves it: a trimmed non-empty name, a trimmed non-empty
  phone, a trimmed email of the required shape.
\<close>

definition valid_contact :: "contact \<Rightarrow> bool" where
  "valid_contact c =
     (strip (name c) = name c \<and> name c \<noteq> [] \<and>
      strip (phone c) = phone c \<and> phone c \<noteq> [] \<and>
      strip (email c) = email c \<and> email_shape (email c))"

section \<open>Pattern matching is membership\<close>

lemma nullable_iff: "nullable r \<longleftrightarrow> [] \<in> lang r"
  by (induction r) (auto simp: conc_def intro: kleene_nil)

lemma kleene_split:
  "z \<in> kleene A \<Longrightarrow> z = x # w \<Longrightarrow> \<exists>u v. w = u @ v \<and> x # u \<in> A \<and> v \<in> kleene A"
proof (induction z rule: kleene.induct)
  case kleene_nil
  then show ?case by simp
next
  case (kleene_app u v)
  show ?case
  proof (cases u)
    case Nil
    with kleene_app show ?thesis by simp
  next
    case (Cons y u')
    with kleene_app.hyps kleene_app.prems show ?thesis by auto
  qed
qed

lemma kleene_Cons:
  "x # w \<in> kleene A \<longleftrightarrow> (\<exists>u v. w = u @ v \<and> x # u \<in> A \<and> v \<in> kleene A)"
proof
  assume "x # w \<in> kleene A"
  then show "\<exists>u v. w = u @ v \<and> x # u \<in> A \<and> v \<in> kleene A"
    by (rule kleene_split) simp
next
  assume "\<exists>u v. w = u @ v \<and> x # u \<in> A \<and> v \<in> kleene A"
  then obtain u v where "w = u @ v" "x # u \<in> A" "v \<in> kleene A" by blast
  then have "(x # u) @ v \<in> kleene A" by (intro kleene_app)
  with \<open>w = u @ v\<close> show "x # w \<in> kleene A" by simp
qed

lemma conc_Cons:
  "x # w \<in> conc A B \<longleftrightarrow>
     (\<exists>u v. w = u @ v \<and> x # u \<in> A \<and> v \<in> B) \<or> ([] \<in> A \<and> x # w \<in> B)"
  by (auto simp: conc_def Cons_eq_append_conv)

lemma lang_deriv: "w \<in> lang (deriv x r) \<longleftrightarrow> x # w \<in> lang r"
proof (induction r arbitrary: w)
  case (Seq r s)
  then show ?case
    by (auto simp: conc_Cons nullable_iff) (auto simp: conc_def)
next
  case (Star r)
  then show ?case
    by (auto simp: kleene_Cons conc_def)
qed auto

lemma fold_deriv_iff: "nullable (fold deriv s r) \<longleftrightarrow> s \<in> lang r"
  by (induction s arbitrary: r) (simp_all add: nullable_iff lang_deriv)

lemma fullmatch_iff: "fullmatch r s \<longleftrightarrow> s \<in> lang r"
  by (simp add: fullmatch_def fold_deriv_iff)

lemma kleene_NotChr: "kleene (lang (NotChr c)) = {w. c \<notin> set w}"
proof (rule set_eqI, rule iffI)
  fix w assume "w \<in> kleene (lang (NotChr c))"
  then show "w \<in> {w. c \<notin> set w}"
    by (induction rule: kleene.induct) auto
next
  fix w assume "w \<in> {w. c \<notin> set w}"
  then show "w \<in> kleene (lang (NotChr c))"
  proof (induction w)
    case Nil
    show ?case by (rule kleene_nil)
  next
    case (Cons x w)
    then have "[x] \<in> lang (NotChr c)" "w \<in> kleene (lang (NotChr c))" by auto
    then have "[x] @ w \<in> kleene (lang (NotChr c))" by (rule kleene_app)
    then show ?case by simp
  qed
qed

lemma lang_Plus_NotChr: "lang (Plus (NotChr c)) = {w. w \<noteq> [] \<and> c \<notin> set w}"
proof (rule set_eqI)
  fix w
  show "w \<in> lang (Plus (NotChr c)) \<longleftrightarrow> w \<in> {w. w \<noteq> [] \<and> c \<notin> set w}"
  proof (cases w)
    case Nil
    then show ?thesis by (simp add: Plus_def conc_def)
  next
    case (Cons x xs)
    have "x # xs \<in> conc (lang (NotChr c)) {w. c \<notin> set w} \<longleftrightarrow> x \<noteq> c \<and> c \<notin> set xs"
    proof
      assume "x # xs \<in> conc (lang (NotChr c)) {w. c \<notin> set w}"
      then show "x \<noteq> c \<and> c \<notin> set xs" by (auto simp: conc_def)
    next
      assume "x \<noteq> c \<and> c \<notin> set xs"
      then have "[x] \<in> lang (NotChr c)" "xs \<in> {w. c \<notin> set w}" "x # xs = [x] @ xs"
        by simp_all
      then show "x # xs \<in> conc (lang (NotChr c)) {w. c \<notin> set w}"
        unfolding conc_def by blast
    qed
    moreover have "lang (Plus (NotChr c)) = conc (lang (NotChr c)) {w. c \<notin> set w}"
      by (simp only: Plus_def lang.simps(6,7) kleene_NotChr)
    ultimately show ?thesis
      using Cons by auto
  qed
qed

lemma lang_EMAIL_REGEX: "s \<in> lang EMAIL_REGEX \<longleftrightarrow> email_shape s"
  unfolding EMAIL_REGEX_def lang.simps(6) lang_Plus_NotChr
  apply (simp add: conc_def email_shape_def no_at_def)
  apply blast
  done

lemma fullmatch_EMAIL_REGEX: "fullmatch EMAIL_REGEX s \<longleftrightarrow> email_shape s"
  by (simp add: fullmatch_iff lang_EMAIL_REGEX)

section \<open>Contact construction\<close>

lemma contact_init_cases:
  "contact_init n p e =
     (if strip n \<noteq> [] \<and> strip p \<noteq> [] \<and> email_shape (strip e)
      then Inr \<lparr>name = strip n, phone = strip p, email = strip e\<rparr>
      else Inl (ValueError
             (if strip n = [] then ''Name cannot be empty.''
              else if strip p = [] then ''Phone cannot be empty.''
              else ''Invalid email format: '' @ strip e)))"
  by (simp add: contact_init_def validate_non_empty_def validate_email_def
      fullmatch_EMAIL_REGEX Let_def)

lemma strip_Alice: "strip ''  Alice '' = ''Alice''"
  by (simp add: strip_def isspace_def)

lemma strip_555_1111: "strip ''555-1111'' = ''555-1111''"
  by (simp add: strip_def isspace_def)

lemma strip_alice_email: "strip '' alice@example.com'' = ''alice@example.com''"
  by (simp add: strip_def isspace_def)

lemma strip_not_an_email: "strip ''not-an-email'' = ''not-an-email''"
  by (simp add: strip_def isspace_def)

lemma shape_alice_email: "email_shape ''alice@example.com''"
  unfolding fullmatch_EMAIL_REGEX [symmetric] by code_simp

lemma shape_not_an_email: "\<not> email_shape ''not-an-email''"
  unfolding fullmatch_EMAIL_REGEX [symmetric] by code_simp

text \<open>
  C4. Construction trims the three fields. It succeeds exactly when the trimmed name and
  the trimmed phone are non-empty and the whole trimmed email has the shape: one or more
  characters other than \<open>@\<close>, \<open>@\<close>, one or more characters other than \<open>@\<close>, a dot, one
  or more characters other than \<open>@\<close>. The contact built then holds the trimmed values,
  and \<open>to_dict\<close> returns them. Otherwise construction raises a ValueError.
\<close>

theorem Contact_construction:
  "contact_init n p e =
     (if strip n \<noteq> [] \<and> strip p \<noteq> [] \<and> email_shape (strip e)
      then Inr \<lparr>name = strip n, phone = strip p, email = strip e\<rparr>
      else Inl (ValueError
             (if strip n = [] then ''Name cannot be empty.''
              else if strip p = [] then ''Phone cannot be empty.''
              else ''Invalid email format: '' @ strip e)))
   \<and> (\<forall>c. contact_init n p e = Inr c \<longrightarrow>
          to_dict c = [(''name'', strip n), (''phone'', strip p), (''email'', strip e)])"
  by (auto simp: contact_init_cases to_dict_def)

theorem Contact_construction_witness:
  "contact_init ''  Alice '' ''555-1111'' '' alice@example.com''
     = Inr \<lparr>name = ''Alice'', phone = ''555-1111'', email = ''alice@example.com''\<rparr>
   \<and> to_dict \<lparr>name = ''Alice'', phone = ''555-1111'', email = ''alice@example.com''\<rparr>
     = [(''name'', ''Alice''), (''phone'', ''555-1111''), (''email'', ''alice@example.com'')]
   \<and> contact_init ''  Alice '' ''555-1111'' ''not-an-email''
     = Inl (ValueError ''Invalid email format: not-an-email'')"
  using Contact_construction [of "''  Alice ''" "''555-1111''" "'' alice@example.com''"]
    Contact_construction [of "''  Alice ''" "''555-1111''" "''not-an-email''"]
  by (simp add: strip_Alice strip_555_1111 strip_alice_email strip_not_an_email
      shape_alice_email shape_not_an_email)

section \<open>Merging into the collection\<close>

lemma contains_iff: "contains c s \<longleftrightarrow> (\<exists>e\<in>set s. lower (name e) = lower (name c))"
  by (simp add: contains_def contact_eq_def list_ex_iff)

lemma add_contact_single:
  "coll_add_contact (VContact c) s = (if contains c s then s else s @ [c], None)"
  by (simp add: coll_add_contact_def)

lemma extend_self_unchanged: "extend_self i s = (s, None)"
proof (induction i s rule: extend_self.induct)
  case (1 i s)
  show ?case
  proof (cases "i < length s")
    case False
    then show ?thesis by (subst extend_self.simps) simp
  next
    case True
    then have "s ! i \<in> set s" by simp
    then have "contains (s ! i) s" unfolding contains_iff by blast
    then have step: "coll_add_contact (VContact (s ! i)) s = (s, None)"
      by (simp add: add_contact_single)
    with "1.IH" [of s None] True have "extend_self (Suc i) s = (s, None)" by simp
    with True step show ?thesis by (subst extend_self.simps) simp
  qed
qed

lemma for_each_add_contacts:
  "for_each coll_add_contact (map VContact cs) s =
     (fold (\<lambda>c s. fst (coll_add_contact (VContact c) s)) cs s, None)"
  by (induction cs arbitrary: s) (simp_all add: add_contact_single)

lemma contains_append: "contains c (s @ t) \<longleftrightarrow> contains c s \<or> contains c t"
  by (auto simp: contains_iff)

lemma contains_fold_mono:
  "contains c s \<Longrightarrow> contains c (fold (\<lambda>c s. fst (coll_add_contact (VContact c) s)) cs s)"
  by (induction cs arbitrary: s) (simp_all add: add_contact_single contains_append)

lemma contains_fold_member:
  "c \<in> set cs \<Longrightarrow> contains c (fold (\<lambda>c s. fst (coll_add_contact (VContact c) s)) cs s)"
proof (induction cs arbitrary: s)
  case Nil
  then show ?case by simp
next
  case (Cons x cs)
  show ?case
  proof (cases "c = x")
    case True
    have "contains x (fst (coll_add_contact (VContact x) s))"
      by (simp add: add_contact_single contains_append contains_iff)
    with True show ?thesis by (simp add: contains_fold_mono)
  next
    case False
    with Cons show ?thesis by simp
  qed
qed

lemma fold_add_all_present:
  "(\<And>c. c \<in> set cs \<Longrightarrow> contains c s) \<Longrightarrow>
     fold (\<lambda>c s. fst (coll_add_contact (VContact c) s)) cs s = s"
  by (induction cs) (simp_all add: add_contact_single)

lemma fold_add_idem:
  "fold (\<lambda>c s. fst (coll_add_contact (VContact c) s)) cs
     (fold (\<lambda>c s. fst (coll_add_contact (VContact c) s)) cs s) =
   fold (\<lambda>c s. fst (coll_add_contact (VContact c) s)) cs s"
  by (rule fold_add_all_present) (rule contains_fold_member)

lemma map_snd_keyed: "map snd (map (\<lambda>(k, c). (k, VContact c)) kcs) = map VContact (map snd kcs)"
  by (induction kcs) auto

lemma extend_by_itself: "coll_extend VSelf s = (s, None)"
  by (simp add: coll_extend_def extend_self_unchanged)

lemma lower_examples:
  "lower ''Alice'' = ''alice''" "lower ''alice'' = ''alice''" "lower ''ALICE'' = ''alice''"
  "lower ''Bob'' = ''bob''" "lower ''bob'' = ''bob''" "lower ''Carol'' = ''carol''"
  by code_simp+

text \<open>
  C1. Merging a contact, given alone, as an element of a sequence or as a value of a
  dict, appends it when no stored contact has its name, case-insensitively, and otherwise
  leaves the store as it is: nothing is overwritten. Merging the same input a second time
  changes nothing, and merging a contact whose name is already stored leaves the stored
  contact, with its phone and email, in place.
\<close>

theorem merge_adds_only_absent:
  "coll_extend (VContact c) s =
     (if (\<exists>e\<in>set s. lower (name e) = lower (name c)) then s else s @ [c], None)
   \<and> coll_extend (VSeq k (map VContact cs)) s =
       (fold (\<lambda>c s. fst (coll_extend (VContact c) s)) cs s, None)
   \<and> coll_extend (VDict (map (\<lambda>(key, c). (key, VContact c)) kcs)) s =
       (fold (\<lambda>c s. fst (coll_extend (VContact c) s)) (map snd kcs) s, None)
   \<and> coll_extend (VContact c) (fst (coll_extend (VContact c) s)) = coll_extend (VContact c) s
   \<and> coll_extend (VSeq k (map VContact cs)) (fst (coll_extend (VSeq k (map VContact cs)) s)) =
       coll_extend (VSeq k (map VContact cs)) s
   \<and> (e \<in> set s \<and> lower (name e) = lower (name c) \<longrightarrow>
        coll_extend (VContact c) s = (s, None))"
proof -
  have ext: "coll_extend (VContact c) s = coll_add_contact (VContact c) s" for c s
    by (simp add: coll_extend_def)
  have single: "coll_extend (VContact c) s =
      (if (\<exists>e\<in>set s. lower (name e) = lower (name c)) then s else s @ [c], None)" for c s
    by (simp add: ext add_contact_single contains_iff)
  have seq: "coll_extend (VSeq k (map VContact cs)) s =
      (fold (\<lambda>c s. fst (coll_extend (VContact c) s)) cs s, None)" for k cs s
    by (simp add: coll_extend_def for_each_add_contacts)
  have dict: "coll_extend (VDict (map (\<lambda>(key, c). (key, VContact c)) kcs)) s =
      (fold (\<lambda>c s. fst (coll_extend (VContact c) s)) (map snd kcs) s, None)"
    by (simp add: coll_extend_def map_snd_keyed for_each_add_contacts del: map_map)
  have idem1: "coll_extend (VContact c) (fst (coll_extend (VContact c) s)) =
      coll_extend (VContact c) s"
    by (auto simp: single)
  have idem2: "coll_extend (VSeq k (map VContact cs)) (fst (coll_extend (VSeq k (map VContact cs)) s)) =
       coll_extend (VSeq k (map VContact cs)) s"
    unfolding seq ext by (simp add: fold_add_idem)
  show ?thesis
    using single [of c s] seq [of k cs s] dict idem1 idem2 by auto
qed

theorem merge_adds_only_absent_witness:
  "coll_extend
     (VContact \<lparr>name = ''alice'', phone = ''555-2222'', email = ''alice2@example.com''\<rparr>)
     [\<lparr>name = ''Alice'', phone = ''555-1111'', email = ''alice@example.com''\<rparr>]
   = ([\<lparr>name = ''Alice'', phone = ''555-1111'', email = ''alice@example.com''\<rparr>], None)"
  using merge_adds_only_absent
    [where c = "\<lparr>name = ''alice'', phone = ''555-2222'', email = ''alice2@example.com''\<rparr>"
       and s = "[\<lparr>name = ''Alice'', phone = ''555-1111'', email = ''alice@example.com''\<rparr>]"
       and e = "\<lparr>name = ''Alice'', phone = ''555-1111'', email = ''alice@example.com''\<rparr>"
       and cs = "[]" and kcs = "[]"]
  by (simp add: lower_examples)

section \<open>Removing from the collection\<close>

lemma list_remove_None: "list_remove (VContact c) s = None \<longleftrightarrow> \<not> contains c s"
  by (induction s) (auto simp: contains_def)

lemma list_remove_Some:
  "list_remove (VContact c) s = Some s' \<Longrightarrow>
     \<exists>xs e ys. s = xs @ e # ys \<and> contact_eq e c \<and> \<not> contains c xs \<and> s' = xs @ ys"
proof (induction s arbitrary: s')
  case Nil
  then show ?case by simp
next
  case (Cons a s)
  show ?case
  proof (cases "contact_eq a c")
    case True
    with Cons.prems have "a # s = [] @ a # s \<and> contact_eq a c \<and> \<not> contains c [] \<and> s' = [] @ s"
      by (simp add: contains_def)
    then show ?thesis by blast
  next
    case False
    with Cons.prems obtain t where t: "list_remove (VContact c) s = Some t" "s' = a # t"
      by auto
    from Cons.IH [OF t(1)] obtain xs e ys
      where "s = xs @ e # ys" "contact_eq e c" "\<not> contains c xs" "t = xs @ ys"
      by blast
    with False t(2)
    have "a # s = (a # xs) @ e # ys \<and> contact_eq e c \<and> \<not> contains c (a # xs) \<and> s' = (a # xs) @ ys"
      by (simp add: contains_def)
    then show ?thesis by blast
  qed
qed


lemma set_list_remove: "list_remove x s = Some s' \<Longrightarrow> set s' \<subseteq> set s"
  by (induction s arbitrary: s') (auto split: if_splits)






section \<open>Sorting\<close>

text \<open>
  The sorted store is ordered under \<open>Contact.__lt__\<close>, holds the same contacts, and keeps
  equal contacts in the order they had.
\<close>

lemma coll_sort_ordered: "sorted_wrt (\<lambda>a b. \<not> contact_lt b a) (coll_sort s)"
proof -
  have "sorted (map (\<lambda>c. lower (name c)) (coll_sort s))"
    by (simp add: coll_sort_def)
  then have "sorted_wrt (\<lambda>a b. lower (name a) \<le> lower (name b)) (coll_sort s)"
    by (simp add: sorted_map)
  then show ?thesis
    by (rule sorted_wrt_mono_rel [rotated]) (simp add: contact_lt_def not_less)
qed

lemma coll_sort_stable:
  "filter (\<lambda>c. contact_eq c x) (coll_sort s) = filter (\<lambda>c. contact_eq c x) s"
  unfolding coll_sort_def contact_eq_def by (rule sort_key_stable)

lemma coll_sort_mset: "mset (coll_sort s) = mset s"
  by (simp add: coll_sort_def)

section \<open>The collection holds each name once\<close>

lemma for_each_preserves:
  assumes "\<And>x s. P s \<Longrightarrow> P (fst (body x s))" and "P s"
  shows "P (fst (for_each body xs s))"
  using assms(2)
proof (induction xs arbitrary: s)
  case Nil
  then show ?case by simp
next
  case (Cons x xs)
  from assms(1) [OF Cons.prems, of x] have "P (fst (body x s))" .
  with Cons.IH show ?case
    by (cases "body x s") (auto split: option.splits)
qed

lemma no_duplicates_add_contact:
  "no_duplicates s \<Longrightarrow> no_duplicates (fst (coll_add_contact v s))"
  by (cases v) (auto simp: coll_add_contact_def no_duplicates_def contains_iff)

lemma no_duplicates_extend:
  "no_duplicates s \<Longrightarrow> no_duplicates (fst (coll_extend v s))"
  by (cases v)
     (simp_all add: coll_extend_def no_duplicates_add_contact extend_self_unchanged
        for_each_preserves [where P = no_duplicates])

lemma no_duplicates_list_remove:
  "no_duplicates s \<Longrightarrow> list_remove x s = Some s' \<Longrightarrow> no_duplicates s'"
proof (induction s arbitrary: s')
  case Nil
  then show ?case by simp
next
  case (Cons a s)
  show ?case
  proof (cases "py_eq a x")
    case True
    with Cons.prems show ?thesis by (simp add: no_duplicates_def)
  next
    case False
    with Cons.prems obtain t where t: "list_remove x s = Some t" "s' = a # t"
      by auto
    from Cons.prems(1) have "no_duplicates s" by (simp add: no_duplicates_def)
    then have "no_duplicates t" using t(1) by (rule Cons.IH)
    moreover from t(1) have "set t \<subseteq> set s" by (rule set_list_remove)
    ultimately show ?thesis
      using Cons.prems(1) t(2) by (auto simp: no_duplicates_def)
  qed
qed

lemma no_duplicates_contacts_remove:
  "no_duplicates s \<Longrightarrow> no_duplicates (fst (contacts_remove v s))"
  by (auto simp: contacts_remove_def no_duplicates_list_remove split: option.splits)

lemma no_duplicates_remove_self:
  "no_duplicates s \<Longrightarrow> no_duplicates (fst (remove_self i s))"
proof (induction i s rule: remove_self.induct)
  case (1 i s)
  show ?case
  proof (cases "i < length s")
    case False
    with "1.prems" show ?thesis by (subst remove_self.simps) simp
  next
    case True
    obtain s' r where step: "contacts_remove (VContact (s ! i)) s = (s', r)"
      by (cases "contacts_remove (VContact (s ! i)) s")
    from "1.prems" have s': "no_duplicates s'"
      using no_duplicates_contacts_remove [of s "VContact (s ! i)"] step by simp
    show ?thesis
    proof (cases r)
      case None
      with "1.IH" [of s' r] True step s' have "no_duplicates (fst (remove_self (Suc i) s'))"
        by simp
      with True step None show ?thesis by (subst remove_self.simps) simp
    next
      case (Some e)
      with True step s' show ?thesis by (subst remove_self.simps) simp
    qed
  qed
qed

lemma no_duplicates_remove:
  "no_duplicates s \<Longrightarrow> no_duplicates (fst (coll_remove v s))"
  by (cases v)
     (simp_all add: coll_remove_def no_duplicates_contacts_remove no_duplicates_remove_self
        for_each_preserves [where P = no_duplicates])

lemma no_duplicates_sort: "no_duplicates (coll_sort s) = no_duplicates s"
proof -
  have "mset (map (\<lambda>c. lower (name c)) (coll_sort s)) = mset (map (\<lambda>c. lower (name c)) s)"
    by (simp add: coll_sort_def)
  then show ?thesis
    unfolding no_duplicates_def by (rule mset_eq_imp_distinct_iff)
qed

lemma no_duplicates_Nil: "no_duplicates []"
  by (simp add: no_duplicates_def)

lemma no_duplicates_init: "no_duplicates (fst (coll_init data))"
  by (cases data) (simp_all add: coll_init_def no_duplicates_extend no_duplicates_Nil)

text \<open>
  C3. Construction, merging, removal and sorting keep a store free of duplicate names;
  index assignment does not. Assigning, at index 1 of the store of Alice and Bob, a
  contact named alice is accepted and leaves two contacts with the same name.
\<close>

theorem setitem_introduces_duplicate:
  "no_duplicates
     [\<lparr>name = ''Alice'', phone = ''555-1111'', email = ''alice@example.com''\<rparr>,
      \<lparr>name = ''Bob'', phone = ''555-2222'', email = ''bob@example.com''\<rparr>]
   \<and> coll_setitem 1
       (VContact \<lparr>name = ''alice'', phone = ''555-3333'', email = ''al@example.com''\<rparr>)
       [\<lparr>name = ''Alice'', phone = ''555-1111'', email = ''alice@example.com''\<rparr>,
        \<lparr>name = ''Bob'', phone = ''555-2222'', email = ''bob@example.com''\<rparr>]
     = ([\<lparr>name = ''Alice'', phone = ''555-1111'', email = ''alice@example.com''\<rparr>,
         \<lparr>name = ''alice'', phone = ''555-3333'', email = ''al@example.com''\<rparr>], None)
   \<and> \<not> no_duplicates
       [\<lparr>name = ''Alice'', phone = ''555-1111'', email = ''alice@example.com''\<rparr>,
        \<lparr>name = ''alice'', phone = ''555-3333'', email = ''al@example.com''\<rparr>]"
  by (simp add: coll_setitem_def no_duplicates_def lower_examples)

section \<open>The manager\<close>

lemma say_fields [simp]:
  "contacts (say ms m) = contacts m" "storage (say ms m) = storage m"
  "writes (say ms m) = writes m" "out (say ms m) = out m @ ms"
  by (simp_all add: say_def)

lemma find_by_name_empty_iff:
  "coll_find_by_name nm s = [] \<longleftrightarrow> \<not> (\<exists>c\<in>set s. lower (name c) = lower nm)"
  by (auto simp: coll_find_by_name_def filter_empty_conv)

text \<open>
  C7. When no stored contact has the given name, case-insensitively, update, delete and
  search each print the not-found line and nothing else, raise nothing, and leave the
  store, the file and the number of writes as they were.
\<close>

theorem not_found_changes_nothing:
  "\<not> (\<exists>c\<in>set (contacts m). lower (name c) = lower nm) \<longrightarrow>
     update_contact dumps nm ph em m = say [MsgNotFound nm] m
   \<and> delete_contact dumps nm m = (say [MsgNotFound nm] m, None)
   \<and> search_contact nm m = say [MsgNotFound nm] m
   \<and> contacts (say [MsgNotFound nm] m) = contacts m
   \<and> storage (say [MsgNotFound nm] m) = storage m
   \<and> writes (say [MsgNotFound nm] m) = writes m
   \<and> out (say [MsgNotFound nm] m) = out m @ [MsgNotFound nm]"
proof
  assume "\<not> (\<exists>c\<in>set (contacts m). lower (name c) = lower nm)"
  then have "coll_find_by_name nm (contacts m) = []"
    by (simp add: find_by_name_empty_iff)
  then show "update_contact dumps nm ph em m = say [MsgNotFound nm] m
   \<and> delete_contact dumps nm m = (say [MsgNotFound nm] m, None)
   \<and> search_contact nm m = say [MsgNotFound nm] m
   \<and> contacts (say [MsgNotFound nm] m) = contacts m
   \<and> storage (say [MsgNotFound nm] m) = storage m
   \<and> writes (say [MsgNotFound nm] m) = writes m
   \<and> out (say [MsgNotFound nm] m) = out m @ [MsgNotFound nm]"
    by (simp add: update_contact_def delete_contact_def search_contact_def)
qed

theorem not_found_changes_nothing_witness:
  "delete_contact (\<lambda>v. [])  ''Bob''
     \<lparr>contacts = [\<lparr>name = ''Alice'', phone = ''555-1111'', email = ''alice@example.com''\<rparr>],
      storage = Some [1], writes = 1, out = []\<rparr>
   = (\<lparr>contacts = [\<lparr>name = ''Alice'', phone = ''555-1111'', email = ''alice@example.com''\<rparr>],
       storage = Some [1], writes = 1, out = [MsgNotFound ''Bob'']\<rparr>, None)"
  using not_found_changes_nothing
    [where nm = "''Bob''" and dumps = "\<lambda>v. []"
       and m = "\<lparr>contacts = [\<lparr>name = ''Alice'', phone = ''555-1111'', email = ''alice@example.com''\<rparr>],
                 storage = Some [1], writes = 1, out = []\<rparr>"]
  by (simp add: lower_examples say_def)

text \<open>
  C5. When the triple given to add is invalid (the trimmed name or the trimmed phone is
  empty, or the trimmed email has not the required shape), or the replacement triple of
  an update fails validation, construction raises, the error is printed, and the store,
  the file and the number of writes are as they were.
\<close>

theorem invalid_input_changes_nothing:
  "((strip n = [] \<or> strip p = [] \<or> \<not> email_shape (strip e)) \<longrightarrow>
      (\<exists>msg. contact_init n p e = Inl (ValueError msg)
         \<and> add_contact dumps n p e m = say [MsgError (ValueError msg)] m))
   \<and> (coll_find_by_name nm (contacts m) = c # cs
        \<and> contact_init (name c) (or_keep ph (phone c)) (or_keep em (email c)) = Inl err \<longrightarrow>
        update_contact dumps nm ph em m = say [MsgError err] m)
   \<and> contacts (say [MsgError err] m) = contacts m
   \<and> storage (say [MsgError err] m) = storage m
   \<and> writes (say [MsgError err] m) = writes m
   \<and> out (say [MsgError err] m) = out m @ [MsgError err]"
  by (auto simp: add_contact_def update_contact_def contact_init_cases Let_def)

lemma strip_Alice_trimmed: "strip ''Alice'' = ''Alice''"
  by (simp add: strip_def isspace_def)

theorem invalid_input_changes_nothing_witness:
  "add_contact (\<lambda>v. []) ''  Alice '' ''555-1111'' ''not-an-email''
     \<lparr>contacts = [], storage = Some [], writes = 0, out = []\<rparr>
   = \<lparr>contacts = [], storage = Some [], writes = 0,
      out = [MsgError (ValueError ''Invalid email format: not-an-email'')]\<rparr>
   \<and> update_contact (\<lambda>v. []) ''alice'' None (Some ''not-an-email'')
       \<lparr>contacts = [\<lparr>name = ''Alice'', phone = ''555-1111'', email = ''alice@example.com''\<rparr>],
        storage = Some [1], writes = 1, out = []\<rparr>
     = \<lparr>contacts = [\<lparr>name = ''Alice'', phone = ''555-1111'', email = ''alice@example.com''\<rparr>],
        storage = Some [1], writes = 1,
        out = [MsgError (ValueError ''Invalid email format: not-an-email'')]\<rparr>"
  using invalid_input_changes_nothing
    [where n = "''  Alice ''" and p = "''555-1111''" and e = "''not-an-email''"
       and dumps = "\<lambda>v. []"
       and m = "\<lparr>contacts = [], storage = Some [], writes = 0, out = []\<rparr>"]
    invalid_input_changes_nothing
    [where nm = "''alice''" and ph = None and em = "Some ''not-an-email''"
       and dumps = "\<lambda>v. []"
       and c = "\<lparr>name = ''Alice'', phone = ''555-1111'', email = ''alice@example.com''\<rparr>"
       and cs = "[]"
       and err = "ValueError ''Invalid email format: not-an-email''"
       and m = "\<lparr>contacts = [\<lparr>name = ''Alice'', phone = ''555-1111'', email = ''alice@example.com''\<rparr>],
                 storage = Some [1], writes = 1, out = []\<rparr>"]
  by (simp add: contact_init_cases strip_Alice strip_Alice_trimmed strip_555_1111
      strip_not_an_email shape_not_an_email say_def coll_find_by_name_def lower_examples
      or_keep_def)

section \<open>Updating a contact\<close>

lemma dropWhile_unchanged: "xs = [] \<or> \<not> P (hd xs) \<Longrightarrow> dropWhile P xs = xs"
  by (cases xs) auto

lemma strip_idem: "strip (strip s) = strip s"
proof -
  define u where "u = dropWhile isspace s"
  define t where "t = rev (dropWhile isspace (rev u))"
  have strip: "strip s = t" by (simp add: strip_def t_def u_def)
  have "t @ rev (takeWhile isspace (rev u)) =
      rev (takeWhile isspace (rev u) @ dropWhile isspace (rev u))"
    unfolding t_def by (rule rev_append [symmetric])
  also have "\<dots> = rev (rev u)" by (simp only: takeWhile_dropWhile_id)
  also have "\<dots> = u" by simp
  finally have u: "t @ rev (takeWhile isspace (rev u)) = u" .
  have "t = [] \<or> \<not> isspace (hd t)"
  proof (cases "t = []")
    case True
    then show ?thesis by simp
  next
    case False
    then have "hd (t @ rev (takeWhile isspace (rev u))) = hd t" by (rule hd_append2)
    with u have "hd t = hd u" by simp
    moreover from False u have "u \<noteq> []" by (cases u) auto
    then have "\<not> isspace (hd u)" unfolding u_def by (rule hd_dropWhile)
    ultimately show ?thesis by simp
  qed
  then have left: "dropWhile isspace t = t" by (rule dropWhile_unchanged)
  have right: "rev (dropWhile isspace (rev t)) = t"
    by (simp add: t_def)
  show ?thesis
    unfolding strip by (simp add: strip_def left right)
qed

lemma contact_init_valid: "contact_init n p e = Inr c \<Longrightarrow> valid_contact c"
  by (auto simp: contact_init_cases valid_contact_def strip_idem split: if_splits)

lemma valid_contact_init: "valid_contact c \<Longrightarrow> contact_init (name c) (phone c) (email c) = Inr c"
  by (simp add: contact_init_cases valid_contact_def)

lemma find_by_name_sort: "coll_find_by_name nm (coll_sort s) = coll_find_by_name nm s"
  unfolding coll_find_by_name_def coll_sort_def by (rule sort_key_stable)

lemma filter_singleton_split:
  assumes "filter P (xs @ e # ys) = [c]" "P e"
  shows "e = c \<and> filter P xs = [] \<and> filter P ys = []"
  using assms by (auto simp: append_eq_Cons_conv Cons_eq_append_conv)

lemma update_phone_contacts:
  assumes one: "coll_find_by_name nm (contacts m) = [c]"
    and valid: "valid_contact c"
    and ph: "strip new_phone \<noteq> []"
  shows "\<exists>xs ys. contacts m = xs @ c # ys
           \<and> lower (name c) = lower nm
           \<and> coll_find_by_name nm (xs @ ys) = []
           \<and> update_contact dumps nm (Some new_phone) None m =
               say [MsgUpdated (c\<lparr>phone := strip new_phone\<rparr>)]
                 (save_contacts dumps
                    (m\<lparr>contacts := coll_sort (xs @ ys @ [c\<lparr>phone := strip new_phone\<rparr>])\<rparr>))"
proof -
  let ?c' = "c\<lparr>phone := strip new_phone\<rparr>"
  let ?P = "\<lambda>x. lower (name x) = lower nm"
  from one have "c \<in> set (filter ?P (contacts m))"
    by (simp add: coll_find_by_name_def)
  then have c: "c \<in> set (contacts m)" "lower (name c) = lower nm" by auto
  from ph have "new_phone \<noteq> []" by (auto simp: strip_def)
  then have keep: "or_keep (Some new_phone) (phone c) = strip new_phone"
    "or_keep None (email c) = email c"
    by (simp_all add: or_keep_def)
  from valid ph have init: "contact_init (name c) (strip new_phone) (email c) = Inr ?c'"
    by (simp add: contact_init_cases valid_contact_def strip_idem)
  from c have "contains c (contacts m)" by (auto simp: contains_iff)
  then obtain s1 where s1: "list_remove (VContact c) (contacts m) = Some s1"
    using list_remove_None [of c "contacts m"] by auto
  from list_remove_Some [OF s1] obtain xs e ys
    where split: "contacts m = xs @ e # ys" "contact_eq e c" "s1 = xs @ ys"
    by blast
  from split(2) c(2) have "?P e" by (simp add: contact_eq_def)
  moreover from one have "filter ?P (contacts m) = [c]"
    by (simp only: coll_find_by_name_def)
  then have "filter ?P (xs @ e # ys) = [c]"
    by (simp only: split(1))
  ultimately have "e = c \<and> filter ?P xs = [] \<and> filter ?P ys = []"
    by (intro filter_singleton_split)
  then have e: "e = c" "filter ?P xs = []" "filter ?P ys = []"
    by blast+
  then have none: "coll_find_by_name nm (xs @ ys) = []"
    by (simp add: coll_find_by_name_def)
  then have "\<not> contains ?c' s1"
    using c(2) by (auto simp: contains_iff split(3) coll_find_by_name_def filter_empty_conv)
  then have ext: "coll_extend (VContact ?c') s1 = (s1 @ [?c'], None)"
    by (simp add: coll_extend_def coll_add_contact_def)
  from s1 have rem: "coll_remove (VContact c) (contacts m) = (s1, None)"
    by (simp add: coll_remove_def contacts_remove_def)
  have "update_contact dumps nm (Some new_phone) None m =
      say [MsgUpdated ?c'] (save_contacts dumps (m\<lparr>contacts := coll_sort (s1 @ [?c'])\<rparr>))"
    by (simp add: update_contact_def one keep init rem ext)
  with split(1) e(1) none split(3) c(2)
  have "contacts m = xs @ c # ys
           \<and> lower (name c) = lower nm
           \<and> coll_find_by_name nm (xs @ ys) = []
           \<and> update_contact dumps nm (Some new_phone) None m =
               say [MsgUpdated (c\<lparr>phone := strip new_phone\<rparr>)]
                 (save_contacts dumps
                    (m\<lparr>contacts := coll_sort (xs @ ys @ [c\<lparr>phone := strip new_phone\<rparr>])\<rparr>))"
    by simp
  then show ?thesis by blast
qed

lemma save_contacts_fields [simp]:
  "contacts (save_contacts dumps m) = contacts m"
  "out (save_contacts dumps m) = out m"
  "writes (save_contacts dumps m) = Suc (writes m)"
  "storage (save_contacts dumps m) = Some (dumps (VSeq ListK (map VContact (contacts m))))"
  by (simp_all add: save_contacts_def storage_save_def)

text \<open>
  C6. When exactly one stored contact has the given name, case-insensitively, and it is
  a contact as construction leaves it, an update that gives a new phone, non-empty once
  trimmed, and omits the email keeps the size of the store; afterwards the one contact
  of that name has the trimmed new phone, the stored name and the stored email, and the
  other contacts are the same.
\<close>

theorem update_phone_only:
  "coll_find_by_name nm (contacts m) = [c] \<and> valid_contact c \<and> strip new_phone \<noteq> [] \<longrightarrow>
     length (contacts (update_contact dumps nm (Some new_phone) None m)) = length (contacts m)
   \<and> coll_find_by_name nm (contacts (update_contact dumps nm (Some new_phone) None m))
       = [\<lparr>name = name c, phone = strip new_phone, email = email c\<rparr>]
   \<and> mset (contacts (update_contact dumps nm (Some new_phone) None m))
       = mset (contacts m) - {#c#} + {#\<lparr>name = name c, phone = strip new_phone, email = email c\<rparr>#}"
proof
  assume a: "coll_find_by_name nm (contacts m) = [c] \<and> valid_contact c \<and> strip new_phone \<noteq> []"
  let ?c' = "c\<lparr>phone := strip new_phone\<rparr>"
  have c': "?c' = \<lparr>name = name c, phone = strip new_phone, email = email c\<rparr>" by simp
  from a obtain xs ys where *: "contacts m = xs @ c # ys"
    "coll_find_by_name nm (xs @ ys) = []"
    "lower (name c) = lower nm"
    "update_contact dumps nm (Some new_phone) None m =
       say [MsgUpdated ?c']
         (save_contacts dumps (m\<lparr>contacts := coll_sort (xs @ ys @ [?c'])\<rparr>))"
    using update_phone_contacts [of nm m c new_phone dumps] by blast
  from *(2,3) have "coll_find_by_name nm (xs @ ys @ [?c']) = [?c']"
    by (simp add: coll_find_by_name_def)
  then have find: "coll_find_by_name nm (coll_sort (xs @ ys @ [?c'])) = [?c']"
    by (simp only: find_by_name_sort)
  have len: "length (coll_sort (xs @ ys @ [?c'])) = length (xs @ c # ys)"
    by (simp add: coll_sort_def)
  have ms: "mset (coll_sort (xs @ ys @ [?c'])) = mset (xs @ c # ys) - {#c#} + {#?c'#}"
    by (simp add: coll_sort_def)
  show "length (contacts (update_contact dumps nm (Some new_phone) None m)) = length (contacts m)
   \<and> coll_find_by_name nm (contacts (update_contact dumps nm (Some new_phone) None m))
       = [\<lparr>name = name c, phone = strip new_phone, email = email c\<rparr>]
   \<and> mset (contacts (update_contact dumps nm (Some new_phone) None m))
       = mset (contacts m) - {#c#} + {#\<lparr>name = name c, phone = strip new_phone, email = email c\<rparr>#}"
  proof -
    have upd: "contacts (update_contact dumps nm (Some new_phone) None m) =
        coll_sort (xs @ ys @ [?c'])"
      unfolding *(4) by simp
    show ?thesis
      unfolding upd *(1) using find len ms unfolding c' by (intro conjI)
  qed
qed

lemma strip_555_3333: "strip ''555-3333'' = ''555-3333''"
  by (simp add: strip_def isspace_def)

lemma strip_alice_email_trimmed: "strip ''alice@example.com'' = ''alice@example.com''"
  by (simp add: strip_def isspace_def)

lemma add_Alice:
  "add_contact dumps ''Alice'' ''555-1111'' ''alice@example.com''
     \<lparr>contacts = [], storage = Some [], writes = 0, out = []\<rparr>
   = \<lparr>contacts = [\<lparr>name = ''Alice'', phone = ''555-1111'', email = ''alice@example.com''\<rparr>],
      storage = Some (dumps (VSeq ListK
        [VContact \<lparr>name = ''Alice'', phone = ''555-1111'', email = ''alice@example.com''\<rparr>])),
      writes = 1,
      out = [MsgAdded \<lparr>name = ''Alice'', phone = ''555-1111'', email = ''alice@example.com''\<rparr>]\<rparr>"
  by (simp add: add_contact_def contact_init_cases strip_Alice_trimmed strip_555_1111
      strip_alice_email_trimmed shape_alice_email coll_extend_def coll_add_contact_def
      contains_def coll_sort_def save_contacts_def storage_save_def say_def)

theorem update_phone_only_witness:
  "length (contacts (update_contact (\<lambda>v. []) ''alice'' (Some ''555-3333'') None
      (add_contact (\<lambda>v. []) ''Alice'' ''555-1111'' ''alice@example.com''
         \<lparr>contacts = [], storage = Some [], writes = 0, out = []\<rparr>))) = 1
   \<and> coll_find_by_name ''alice''
       (contacts (update_contact (\<lambda>v. []) ''alice'' (Some ''555-3333'') None
          (add_contact (\<lambda>v. []) ''Alice'' ''555-1111'' ''alice@example.com''
             \<lparr>contacts = [], storage = Some [], writes = 0, out = []\<rparr>)))
     = [\<lparr>name = ''Alice'', phone = ''555-3333'', email = ''alice@example.com''\<rparr>]"
  using update_phone_only
    [where nm = "''alice''" and new_phone = "''555-3333''" and dumps = "\<lambda>v. []"
       and c = "\<lparr>name = ''Alice'', phone = ''555-1111'', email = ''alice@example.com''\<rparr>"
       and m = "add_contact (\<lambda>v. []) ''Alice'' ''555-1111'' ''alice@example.com''
                  \<lparr>contacts = [], storage = Some [], writes = 0, out = []\<rparr>"]
  by (simp add: add_Alice coll_find_by_name_def lower_examples valid_contact_def
      strip_Alice_trimmed strip_555_1111 strip_555_3333 strip_alice_email_trimmed
      shape_alice_email)

section \<open>What the operations raise\<close>

text \<open>
  Merging raises nothing but a TypeError, and a removal nothing but the ValueError of
  \<open>list.remove\<close> or a TypeError; removing a collection from itself raises nothing. An
  object that answers true to \<open>==\<close> is found by \<open>list.remove\<close> like a contact.
\<close>

lemma for_each_raises:
  assumes "\<And>x s s' e. body x s = (s', Some e) \<Longrightarrow> P e"
    and "for_each body xs s = (s', Some e)"
  shows "P e"
  using assms(2)
proof (induction xs arbitrary: s)
  case Nil
  then show ?case by simp
next
  case (Cons x xs)
  obtain s1 r where step: "body x s = (s1, r)" by (cases "body x s")
  show ?case
  proof (cases r)
    case None
    with Cons.prems step have "for_each body xs s1 = (s', Some e)" by simp
    then show ?thesis by (rule Cons.IH)
  next
    case (Some e1)
    with Cons.prems step have "body x s = (s', Some e)" by simp
    then show ?thesis by (rule assms(1))
  qed
qed

lemma coll_add_contact_raises:
  "coll_add_contact v s = (s', Some e) \<Longrightarrow> \<exists>msg. e = TypeError msg"
  by (cases v) (auto simp: coll_add_contact_def)

lemma coll_extend_raises:
  "coll_extend v s = (s', Some e) \<Longrightarrow> \<exists>msg. e = TypeError msg"
proof (cases v)
  case (VContact c)
  assume "coll_extend v s = (s', Some e)"
  with VContact show ?thesis by (simp add: coll_extend_def coll_add_contact_raises)
next
  case (VSeq k items)
  assume "coll_extend v s = (s', Some e)"
  with VSeq have "for_each coll_add_contact items s = (s', Some e)"
    by (simp add: coll_extend_def)
  then show ?thesis
    by (rule for_each_raises [where P = "\<lambda>e. \<exists>msg. e = TypeError msg", rotated])
       (rule coll_add_contact_raises)
next
  case (VDict kvs)
  assume "coll_extend v s = (s', Some e)"
  with VDict have "for_each coll_add_contact (map snd kvs) s = (s', Some e)"
    by (simp add: coll_extend_def)
  then show ?thesis
    by (rule for_each_raises [where P = "\<lambda>e. \<exists>msg. e = TypeError msg", rotated])
       (rule coll_add_contact_raises)
next
  case VSelf
  assume "coll_extend v s = (s', Some e)"
  with VSelf show ?thesis by (simp add: coll_extend_def extend_self_unchanged)
next
  case (VOther b eq)
  assume "coll_extend v s = (s', Some e)"
  with VOther show ?thesis by (auto simp: coll_extend_def)
qed

lemma load_merge_raises:
  assumes "for_each coll_extend items s = (s', Some e)"
  shows "\<exists>msg. e = TypeError msg"
  using assms
  by (rule for_each_raises [where P = "\<lambda>e. \<exists>msg. e = TypeError msg", rotated])
     (rule coll_extend_raises)

lemma remove_self_never_raises: "snd (remove_self i s) = None"
proof (induction i s rule: remove_self.induct)
  case (1 i s)
  show ?case
  proof (cases "i < length s")
    case False
    then show ?thesis by (subst remove_self.simps) simp
  next
    case True
    then have "s ! i \<in> set s" by simp
    then have "contains (s ! i) s" unfolding contains_iff by blast
    then obtain s' where s': "list_remove (VContact (s ! i)) s = Some s'"
      using list_remove_None [of "s ! i" s] by auto
    then have step: "contacts_remove (VContact (s ! i)) s = (s', None)"
      by (simp add: contacts_remove_def)
    with "1.IH" [of s' None] True have "snd (remove_self (Suc i) s') = None" by simp
    with True step show ?thesis by (subst remove_self.simps) simp
  qed
qed

lemma contacts_remove_raises:
  "contacts_remove v s = (s', Some e) \<Longrightarrow>
     s' = s \<and> e = ValueError ''list.remove(x): x not in list''"
  by (auto simp: contacts_remove_def split: option.splits)

lemma remove_by_answering_object:
  "contacts_remove (VOther b (\<lambda>e. True)) (c # s) = (s, None)"
  by (simp add: contacts_remove_def)

section \<open>Saving and loading\<close>

lemma for_each_extend_contacts:
  "for_each coll_extend (map VContact cs) s =
     (fold (\<lambda>c s. fst (coll_add_contact (VContact c) s)) cs s, None)"
  by (induction cs arbitrary: s) (simp_all add: coll_extend_def add_contact_single)

lemma fold_add_no_duplicates:
  "no_duplicates (t @ s) \<Longrightarrow>
     fold (\<lambda>c s. fst (coll_add_contact (VContact c) s)) s t = t @ s"
proof (induction s arbitrary: t)
  case Nil
  then show ?case by simp
next
  case (Cons c s)
  have "\<not> contains c t"
  proof
    assume "contains c t"
    then obtain e where "e \<in> set t" "lower (name e) = lower (name c)"
      by (auto simp: contains_iff)
    then have "lower (name c) \<in> (\<lambda>c. lower (name c)) ` set t"
      by (metis image_eqI)
    with Cons.prems show False by (simp add: no_duplicates_def)
  qed
  moreover from Cons.prems have "no_duplicates ((t @ [c]) @ s)" by simp
  then have "fold (\<lambda>c s. fst (coll_add_contact (VContact c) s)) s (t @ [c]) = (t @ [c]) @ s"
    by (rule Cons.IH)
  ultimately show ?case by (simp add: add_contact_single)
qed

lemma fold_add_subset:
  "set (fold (\<lambda>c s. fst (coll_add_contact (VContact c) s)) cs s) \<subseteq> set s \<union> set cs"
proof (induction cs arbitrary: s)
  case Nil
  then show ?case by simp
next
  case (Cons c cs)
  have "set (fst (coll_add_contact (VContact c) s)) \<subseteq> set s \<union> {c}"
    by (auto simp: add_contact_single)
  with Cons.IH [of "fst (coll_add_contact (VContact c) s)"] show ?case
    by auto
qed

lemma fold_add_find:
  "filter (\<lambda>x. lower (name x) = k)
     (fold (\<lambda>c s. fst (coll_add_contact (VContact c) s)) cs s) =
   (if filter (\<lambda>x. lower (name x) = k) s = []
    then (case find (\<lambda>x. lower (name x) = k) cs of None \<Rightarrow> [] | Some e \<Rightarrow> [e])
    else filter (\<lambda>x. lower (name x) = k) s)"
proof (induction cs arbitrary: s)
  case Nil
  then show ?case by simp
next
  case (Cons c cs)
  let ?P = "\<lambda>x. lower (name x) = k"
  let ?s' = "fst (coll_add_contact (VContact c) s)"
  show ?case
  proof (cases "?P c")
    case True
    then have c: "contains c s \<longleftrightarrow> filter ?P s \<noteq> []"
      by (auto simp: contains_iff filter_empty_conv)
    show ?thesis
    proof (cases "filter ?P s = []")
      case True
      with c \<open>?P c\<close> have "filter ?P ?s' = [c]" by (simp add: add_contact_single)
      with Cons.IH [of ?s'] \<open>?P c\<close> True show ?thesis by simp
    next
      case False
      with c have "?s' = s" by (simp add: add_contact_single)
      with Cons.IH [of ?s'] False show ?thesis by simp
    qed
  next
    case False
    then have "filter ?P ?s' = filter ?P s" by (simp add: add_contact_single)
    with Cons.IH [of ?s'] False show ?thesis by simp
  qed
qed

lemma load_contacts_list:
  "raw \<noteq> [] \<Longrightarrow> loads raw = Returns (VSeq ListK (map VContact cs)) \<Longrightarrow>
     manager_init loads (Some raw) =
       (\<lparr>contacts = fold (\<lambda>c s. fst (coll_add_contact (VContact c) s)) cs [],
         storage = Some raw, writes = 0,
         out = [MsgStorageInitialized,
                MsgLoaded (length (fold (\<lambda>c s. fst (coll_add_contact (VContact c) s)) cs []))]\<rparr>,
        None)"
  by (simp add: manager_init_def load_contacts_def storage_init_def storage_load_def
      coll_init_def for_each_extend_contacts say_def)

text \<open>
  C8. Saving replaces whatever the file held by the pickle of the list of stored
  contacts. Provided unpickling that pickle gives the list back, loading the file and
  unpickling yields the stored contacts themselves, each with its name, phone and email,
  so in particular the same multiset of names; and a manager started on the file starts
  without an exception and holds the same contacts again when their names were all
  different and the pickle is not empty.
\<close>

theorem save_then_load_round_trip:
  "loads (dumps (VSeq ListK (map VContact (contacts m)))) =
      Returns (VSeq ListK (map VContact (contacts m))) \<longrightarrow>
     storage (save_contacts dumps m) = Some (dumps (VSeq ListK (map VContact (contacts m))))
   \<and> (\<exists>raw loaded.
         storage_load (storage (save_contacts dumps m)) = Some raw
       \<and> loads raw = Returns (VSeq ListK (map VContact loaded))
       \<and> loaded = contacts m
       \<and> image_mset (\<lambda>c. lower (name c)) (mset loaded) =
           image_mset (\<lambda>c. lower (name c)) (mset (contacts m)))
   \<and> (dumps (VSeq ListK (map VContact (contacts m))) \<noteq> [] \<and> no_duplicates (contacts m) \<longrightarrow>
        contacts (fst (manager_init loads (storage (save_contacts dumps m)))) = contacts m
        \<and> snd (manager_init loads (storage (save_contacts dumps m))) = None)"
proof
  let ?v = "VSeq ListK (map VContact (contacts m))"
  assume rt: "loads (dumps ?v) = Returns ?v"
  have st: "storage (save_contacts dumps m) = Some (dumps ?v)" by simp
  have restart: "contacts (fst (manager_init loads (storage (save_contacts dumps m)))) = contacts m
      \<and> snd (manager_init loads (storage (save_contacts dumps m))) = None"
    if "dumps ?v \<noteq> []" "no_duplicates (contacts m)"
  proof -
    from that(1) rt have "manager_init loads (Some (dumps ?v)) =
       (\<lparr>contacts = fold (\<lambda>c s. fst (coll_add_contact (VContact c) s)) (contacts m) [],
         storage = Some (dumps ?v), writes = 0,
         out = [MsgStorageInitialized,
                MsgLoaded (length (fold (\<lambda>c s. fst (coll_add_contact (VContact c) s))
                  (contacts m) []))]\<rparr>,
        None)"
      by (rule load_contacts_list)
    moreover from that(2)
    have "fold (\<lambda>c s. fst (coll_add_contact (VContact c) s)) (contacts m) [] = contacts m"
      using fold_add_no_duplicates [of "[]" "contacts m"] by simp
    ultimately show ?thesis by (simp only: st fst_conv snd_conv manager.simps)
  qed
  from rt st restart
  show "storage (save_contacts dumps m) = Some (dumps ?v)
   \<and> (\<exists>raw loaded.
         storage_load (storage (save_contacts dumps m)) = Some raw
       \<and> loads raw = Returns (VSeq ListK (map VContact loaded))
       \<and> loaded = contacts m
       \<and> image_mset (\<lambda>c. lower (name c)) (mset loaded) =
           image_mset (\<lambda>c. lower (name c)) (mset (contacts m)))
   \<and> (dumps ?v \<noteq> [] \<and> no_duplicates (contacts m) \<longrightarrow>
        contacts (fst (manager_init loads (storage (save_contacts dumps m)))) = contacts m
        \<and> snd (manager_init loads (storage (save_contacts dumps m))) = None)"
    by (simp add: storage_load_def)
qed

theorem save_then_load_round_trip_witness:
  "storage (save_contacts (\<lambda>v. [0x80])
      \<lparr>contacts = [\<lparr>name = ''Alice'', phone = ''555-1111'', email = ''alice@example.com''\<rparr>],
       storage = Some [1, 2, 3], writes = 0, out = []\<rparr>) = Some [0x80]
   \<and> contacts (fst (manager_init
        (\<lambda>raw. if raw = [0x80]
           then Returns (VSeq ListK
             [VContact \<lparr>name = ''Alice'', phone = ''555-1111'', email = ''alice@example.com''\<rparr>])
           else RaisesException)
        (storage (save_contacts (\<lambda>v. [0x80])
           \<lparr>contacts = [\<lparr>name = ''Alice'', phone = ''555-1111'', email = ''alice@example.com''\<rparr>],
            storage = Some [1, 2, 3], writes = 0, out = []\<rparr>))))
     = [\<lparr>name = ''Alice'', phone = ''555-1111'', email = ''alice@example.com''\<rparr>]"
  using save_then_load_round_trip
    [where dumps = "\<lambda>v. [0x80]"
       and loads = "\<lambda>raw. if raw = [0x80]
           then Returns (VSeq ListK
             [VContact \<lparr>name = ''Alice'', phone = ''555-1111'', email = ''alice@example.com''\<rparr>])
           else RaisesException"
       and m = "\<lparr>contacts = [\<lparr>name = ''Alice'', phone = ''555-1111'', email = ''alice@example.com''\<rparr>],
                 storage = Some [1, 2, 3], writes = 0, out = []\<rparr>"]
  by (simp add: no_duplicates_def)

text \<open>
  C10. When the file unpickles to a list of contacts, the manager starts, without an
  exception, with a store without duplicate names, made of contacts of the list, in
  which each name of the list is held by the first contact of the list with that name,
  case-insensitively.
\<close>

theorem load_keeps_first_of_each_name:
  "raw \<noteq> [] \<and> loads raw = Returns (VSeq ListK (map VContact cs)) \<longrightarrow>
     no_duplicates (contacts (fst (manager_init loads (Some raw))))
   \<and> set (contacts (fst (manager_init loads (Some raw)))) \<subseteq> set cs
   \<and> (\<forall>c\<in>set cs. \<exists>e. find (\<lambda>e. contact_eq e c) cs = Some e
          \<and> coll_find_by_name (name c) (contacts (fst (manager_init loads (Some raw)))) = [e])
   \<and> snd (manager_init loads (Some raw)) = None"
proof
  assume a: "raw \<noteq> [] \<and> loads raw = Returns (VSeq ListK (map VContact cs))"
  let ?s = "fold (\<lambda>c s. fst (coll_add_contact (VContact c) s)) cs []"
  from a have s: "contacts (fst (manager_init loads (Some raw))) = ?s"
    and r: "snd (manager_init loads (Some raw)) = None"
    by (simp_all add: load_contacts_list)
  have "no_duplicates (fst (for_each coll_extend (map VContact cs) []))"
    by (rule for_each_preserves [where P = no_duplicates])
       (simp_all add: no_duplicates_extend no_duplicates_Nil)
  then have nd: "no_duplicates ?s" by (simp add: for_each_extend_contacts)
  have sub: "set ?s \<subseteq> set cs" using fold_add_subset [of cs "[]"] by simp
  have first: "\<exists>e. find (\<lambda>e. contact_eq e c) cs = Some e \<and> coll_find_by_name (name c) ?s = [e]"
    if "c \<in> set cs" for c
  proof -
    from that have "find (\<lambda>e. contact_eq e c) cs \<noteq> None"
      by (auto simp: find_None_iff contact_eq_def)
    then obtain e where e: "find (\<lambda>e. contact_eq e c) cs = Some e" by blast
    then have "find (\<lambda>x. lower (name x) = lower (name c)) cs = Some e"
      by (simp add: contact_eq_def)
    then have "coll_find_by_name (name c) ?s = [e]"
      unfolding coll_find_by_name_def by (simp add: fold_add_find)
    with e show ?thesis by blast
  qed
  from nd sub first r show "no_duplicates (contacts (fst (manager_init loads (Some raw))))
   \<and> set (contacts (fst (manager_init loads (Some raw)))) \<subseteq> set cs
   \<and> (\<forall>c\<in>set cs. \<exists>e. find (\<lambda>e. contact_eq e c) cs = Some e
          \<and> coll_find_by_name (name c) (contacts (fst (manager_init loads (Some raw)))) = [e])
   \<and> snd (manager_init loads (Some raw)) = None"
    unfolding s by blast
qed

theorem load_keeps_first_of_each_name_witness:
  "contacts (fst (manager_init
      (\<lambda>raw. Returns (VSeq ListK
         [VContact \<lparr>name = ''Alice'', phone = ''555-1111'', email = ''alice@example.com''\<rparr>,
          VContact \<lparr>name = ''Bob'', phone = ''555-2222'', email = ''bob@example.com''\<rparr>,
          VContact \<lparr>name = ''ALICE'', phone = ''555-3333'', email = ''al@example.com''\<rparr>]))
      (Some [1])))
   = [\<lparr>name = ''Alice'', phone = ''555-1111'', email = ''alice@example.com''\<rparr>,
      \<lparr>name = ''Bob'', phone = ''555-2222'', email = ''bob@example.com''\<rparr>]
   \<and> coll_find_by_name ''ALICE'' (contacts (fst (manager_init
      (\<lambda>raw. Returns (VSeq ListK
         [VContact \<lparr>name = ''Alice'', phone = ''555-1111'', email = ''alice@example.com''\<rparr>,
          VContact \<lparr>name = ''Bob'', phone = ''555-2222'', email = ''bob@example.com''\<rparr>,
          VContact \<lparr>name = ''ALICE'', phone = ''555-3333'', email = ''al@example.com''\<rparr>]))
      (Some [1]))))
   = [\<lparr>name = ''Alice'', phone = ''555-1111'', email = ''alice@example.com''\<rparr>]"
  using load_keeps_first_of_each_name
    [where raw = "[1]"
       and cs = "[\<lparr>name = ''Alice'', phone = ''555-1111'', email = ''alice@example.com''\<rparr>,
                  \<lparr>name = ''Bob'', phone = ''555-2222'', email = ''bob@example.com''\<rparr>,
                  \<lparr>name = ''ALICE'', phone = ''555-3333'', email = ''al@example.com''\<rparr>]"
       and loads = "\<lambda>raw. Returns (VSeq ListK
         [VContact \<lparr>name = ''Alice'', phone = ''555-1111'', email = ''alice@example.com''\<rparr>,
          VContact \<lparr>name = ''Bob'', phone = ''555-2222'', email = ''bob@example.com''\<rparr>,
          VContact \<lparr>name = ''ALICE'', phone = ''555-3333'', email = ''al@example.com''\<rparr>])"]
  by (simp add: manager_init_def load_contacts_def storage_init_def storage_load_def
      coll_init_def coll_extend_def coll_add_contact_def contains_def contact_eq_def
      coll_find_by_name_def say_def lower_examples)

text \<open>
  C9. When unpickling the file raises an instance of \<open>Exception\<close>, the warning is
  printed, the store stays empty and no exception leaves loading. When unpickling raises
  an exception that is not an instance of \<open>Exception\<close>, such as \<open>SystemExit\<close>, that
  exception leaves loading and nothing is printed. When the file unpickles to an object
  that is not a list, the store stays empty, nothing is printed and no exception leaves
  loading. When it unpickles to a list, its elements are merged in order: if merging
  one of them raises its TypeError, the warning is printed and no exception leaves
  loading; if none does, the number of stored contacts is printed.
\<close>

theorem corrupt_file_is_survived:
  "raw \<noteq> [] \<longrightarrow>
     (loads raw = RaisesException \<longrightarrow>
        manager_init loads (Some raw) =
          (\<lparr>contacts = [], storage = Some raw, writes = 0,
            out = [MsgStorageInitialized, MsgParseFailed]\<rparr>, None))
   \<and> (\<forall>x. loads raw = RaisesBaseException x \<longrightarrow>
        manager_init loads (Some raw) =
          (\<lparr>contacts = [], storage = Some raw, writes = 0, out = [MsgStorageInitialized]\<rparr>,
           Some x))
   \<and> (\<forall>v. loads raw = Returns v \<and> (\<forall>items. v \<noteq> VSeq ListK items) \<longrightarrow>
        manager_init loads (Some raw) =
          (\<lparr>contacts = [], storage = Some raw, writes = 0, out = [MsgStorageInitialized]\<rparr>,
           None))
   \<and> (\<forall>items s e. loads raw = Returns (VSeq ListK items)
          \<and> for_each coll_extend items [] = (s, Some e) \<longrightarrow>
        out (fst (manager_init loads (Some raw))) = [MsgStorageInitialized, MsgParseFailed]
        \<and> storage (fst (manager_init loads (Some raw))) = Some raw
        \<and> writes (fst (manager_init loads (Some raw))) = 0
        \<and> snd (manager_init loads (Some raw)) = None)
   \<and> (\<forall>items s. loads raw = Returns (VSeq ListK items)
          \<and> for_each coll_extend items [] = (s, None) \<longrightarrow>
        manager_init loads (Some raw) =
          (\<lparr>contacts = s, storage = Some raw, writes = 0,
            out = [MsgStorageInitialized, MsgLoaded (length s)]\<rparr>, None))"
proof (intro impI conjI allI)
  assume "raw \<noteq> []" "loads raw = RaisesException"
  then show "manager_init loads (Some raw) =
      (\<lparr>contacts = [], storage = Some raw, writes = 0,
        out = [MsgStorageInitialized, MsgParseFailed]\<rparr>, None)"
    by (simp add: manager_init_def load_contacts_def storage_init_def storage_load_def
        coll_init_def say_def)
next
  fix x
  assume "raw \<noteq> []" "loads raw = RaisesBaseException x"
  then show "manager_init loads (Some raw) =
      (\<lparr>contacts = [], storage = Some raw, writes = 0, out = [MsgStorageInitialized]\<rparr>,
       Some x)"
    by (simp add: manager_init_def load_contacts_def storage_init_def storage_load_def
        coll_init_def)
next
  fix v
  assume "raw \<noteq> []" "loads raw = Returns v \<and> (\<forall>items. v \<noteq> VSeq ListK items)"
  then show "manager_init loads (Some raw) =
      (\<lparr>contacts = [], storage = Some raw, writes = 0, out = [MsgStorageInitialized]\<rparr>,
       None)"
    by (cases v)
       (auto simp: manager_init_def load_contacts_def storage_init_def storage_load_def
          coll_init_def split: seqkind.splits)
next
  fix items s e
  assume a: "raw \<noteq> []"
    "loads raw = Returns (VSeq ListK items) \<and> for_each coll_extend items [] = (s, Some e)"
  then have "manager_init loads (Some raw) =
      (\<lparr>contacts = s, storage = Some raw, writes = 0,
        out = [MsgStorageInitialized, MsgParseFailed]\<rparr>, None)"
    by (simp add: manager_init_def load_contacts_def storage_init_def storage_load_def
        coll_init_def say_def)
  then show "out (fst (manager_init loads (Some raw))) = [MsgStorageInitialized, MsgParseFailed]"
    "storage (fst (manager_init loads (Some raw))) = Some raw"
    "writes (fst (manager_init loads (Some raw))) = 0"
    "snd (manager_init loads (Some raw)) = None"
    by simp_all
next
  fix items s
  assume "raw \<noteq> []"
    "loads raw = Returns (VSeq ListK items) \<and> for_each coll_extend items [] = (s, None)"
  then show "manager_init loads (Some raw) =
      (\<lparr>contacts = s, storage = Some raw, writes = 0,
        out = [MsgStorageInitialized, MsgLoaded (length s)]\<rparr>, None)"
    by (simp add: manager_init_def load_contacts_def storage_init_def storage_load_def
        coll_init_def say_def)
qed

theorem corrupt_file_is_survived_witness:
  "manager_init (\<lambda>raw. RaisesException) (Some [1]) =
     (\<lparr>contacts = [], storage = Some [1], writes = 0,
       out = [MsgStorageInitialized, MsgParseFailed]\<rparr>, None)
   \<and> manager_init (\<lambda>raw. Returns (VDict [])) (Some [1]) =
     (\<lparr>contacts = [], storage = Some [1], writes = 0, out = [MsgStorageInitialized]\<rparr>, None)
   \<and> manager_init (\<lambda>raw. RaisesBaseException (SystemExit 3)) (Some [1]) =
     (\<lparr>contacts = [], storage = Some [1], writes = 0, out = [MsgStorageInitialized]\<rparr>,
      Some (SystemExit 3))"
  using corrupt_file_is_survived [where raw = "[1]" and loads = "\<lambda>raw. RaisesException"]
    corrupt_file_is_survived [where raw = "[1]" and loads = "\<lambda>raw. Returns (VDict [])"]
    corrupt_file_is_survived
      [where raw = "[1]" and loads = "\<lambda>raw. RaisesBaseException (SystemExit 3)"]
  by simp

text \<open>
  Three files on which the claim as it stands fails. The pickle of \<open>5\<close> is ignored
  without a warning. For a list whose second element cannot be merged, the warning is
  printed and the first element stays in the store. And for a pickle that names
  \<open>sys.exit\<close> and the argument \<open>3\<close>, unpickling calls \<open>sys.exit(3)\<close>: the \<open>SystemExit\<close>
  leaves loading.
\<close>

theorem corrupt_file_counterexample:
  "manager_init
     (\<lambda>raw. if raw = [0x80, 0x04, 0x4B, 0x05, 0x2E] then Returns (VOther True (\<lambda>e. False))
        else RaisesException)
     (Some [0x80, 0x04, 0x4B, 0x05, 0x2E])
   = (\<lparr>contacts = [], storage = Some [0x80, 0x04, 0x4B, 0x05, 0x2E], writes = 0,
       out = [MsgStorageInitialized]\<rparr>, None)
   \<and> manager_init
       (\<lambda>raw. Returns (VSeq ListK
          [VContact \<lparr>name = ''Alice'', phone = ''555-1111'', email = ''alice@example.com''\<rparr>,
           VOther True (\<lambda>e. False)]))
       (Some [1])
     = (\<lparr>contacts = [\<lparr>name = ''Alice'', phone = ''555-1111'', email = ''alice@example.com''\<rparr>],
         storage = Some [1], writes = 0,
         out = [MsgStorageInitialized, MsgParseFailed]\<rparr>, None)
   \<and> manager_init
       (\<lambda>raw. if raw = [0x63, 0x73, 0x79, 0x73, 0x0A, 0x65, 0x78, 0x69, 0x74, 0x0A,
                         0x28, 0x49, 0x33, 0x0A, 0x74, 0x52, 0x2E]
          then RaisesBaseException (SystemExit 3) else RaisesException)
       (Some [0x63, 0x73, 0x79, 0x73, 0x0A, 0x65, 0x78, 0x69, 0x74, 0x0A,
              0x28, 0x49, 0x33, 0x0A, 0x74, 0x52, 0x2E])
     = (\<lparr>contacts = [],
         storage = Some [0x63, 0x73, 0x79, 0x73, 0x0A, 0x65, 0x78, 0x69, 0x74, 0x0A,
                         0x28, 0x49, 0x33, 0x0A, 0x74, 0x52, 0x2E],
         writes = 0, out = [MsgStorageInitialized]\<rparr>, Some (SystemExit 3))"
  by (simp add: manager_init_def load_contacts_def storage_init_def storage_load_def
      coll_init_def coll_extend_def coll_add_contact_def contains_def say_def)

end
